theory Spec2Isabelle
  imports Main "HOL-Library.Word"
begin

section \<open>Strings\<close>

text \<open>
  A JavaScript string is a sequence of UTF-16 code units; \<open>length\<close> counts code units.
\<close>

type_synonym js_string = "16 word list"

text \<open>
  \<open>String.prototype.trim\<close> strips, at both ends, the code units that ECMAScript calls
  WhiteSpace (TAB, VT, FF, SP, NBSP, ZWNBSP and the Unicode space separators) or
  LineTerminator (LF, CR, LS, PS).
\<close>

definition js_white_space :: "16 word list" where
  "js_white_space =
     [0x0009, 0x000A, 0x000B, 0x000C, 0x000D, 0x0020, 0x00A0, 0x1680,
      0x2000, 0x2001, 0x2002, 0x2003, 0x2004, 0x2005, 0x2006, 0x2007,
      0x2008, 0x2009, 0x200A, 0x2028, 0x2029, 0x202F, 0x205F, 0x3000, 0xFEFF]"

definition is_white_space :: "16 word \<Rightarrow> bool" where
  "is_white_space c = (c \<in> set js_white_space)"

definition trim :: "js_string \<Rightarrow> js_string" where
  "trim s = rev (dropWhile is_white_space (rev (dropWhile is_white_space s)))"

section \<open>The hashtag payload (\<open>ApiHistoryJSON\<close>, \<open>ApiHashtagJSON\<close>)\<close>

text \<open>
  The payload is JSON. A JSON value is null, a boolean, a number, a string, an array or
  an object; an object maps property names to values. How a number is represented does
  not matter to the two interfaces, so it is left open.
\<close>

datatype 'n json =
    JNull
  | JBool bool
  | JNumber 'n
  | JString js_string
  | JArray "'n json list"
  | JObject "string \<Rightarrow> 'n json option"

text \<open>
  The member types the two interfaces use, each as a test on what an object holds under
  a property name: \<open>string\<close>, an array type \<open>T[]\<close>, and \<open>boolean\<close> on a member
  marked \<open>?\<close>, which may be absent.
\<close>

fun is_string :: "'n json option \<Rightarrow> bool" where
  "is_string (Some (JString s)) = True"
| "is_string x = False"

fun is_array_of :: "('n json \<Rightarrow> bool) \<Rightarrow> 'n json option \<Rightarrow> bool" where
  "is_array_of T (Some (JArray xs)) = list_all T xs"
| "is_array_of T x = False"

fun is_optional_boolean :: "'n json option \<Rightarrow> bool" where
  "is_optional_boolean None = True"
| "is_optional_boolean (Some (JBool b)) = True"
| "is_optional_boolean x = False"

text \<open>
  The two interfaces, as the values that have the type. An interface type is
  structural: a value has it when it is an object on which every declared member has
  its declared type; what else the object carries is not looked at.
\<close>

fun ApiHistoryJSON :: "'n json \<Rightarrow> bool" where
  "ApiHistoryJSON (JObject ps) =
     (is_string (ps ''day'') \<and>
      is_string (ps ''accounts'') \<and>
      is_string (ps ''uses''))"
| "ApiHistoryJSON x = False"

fun ApiHashtagJSON :: "'n json \<Rightarrow> bool" where
  "ApiHashtagJSON (JObject ps) =
     (is_string (ps ''name'') \<and>
      is_string (ps ''url'') \<and>
      is_array_of ApiHistoryJSON (ps ''history'') \<and>
      is_optional_boolean (ps ''following''))"
| "ApiHashtagJSON x = False"

text \<open>
  The shape in the words of the specification, to compare the interfaces with: an
  object of exactly the named properties, the two counts being numeric strings
  (non-empty strings of decimal digits).
\<close>

definition digits :: "16 word list" where
  "digits = [0x30, 0x31, 0x32, 0x33, 0x34, 0x35, 0x36, 0x37, 0x38, 0x39]"

fun numeric_string :: "'n json option \<Rightarrow> bool" where
  "numeric_string (Some (JString s)) = (s \<noteq> [] \<and> list_all (\<lambda>c. c \<in> set digits) s)"
| "numeric_string x = False"

fun claimed_ApiHistoryJSON :: "'n json \<Rightarrow> bool" where
  "claimed_ApiHistoryJSON (JObject ps) =
     (dom ps = {''day'', ''accounts'', ''uses''} \<and>
      is_string (ps ''day'') \<and>
      numeric_string (ps ''accounts'') \<and>
      numeric_string (ps ''uses''))"
| "claimed_ApiHistoryJSON x = False"

fun claimed_ApiHashtagJSON :: "'n json \<Rightarrow> bool" where
  "claimed_ApiHashtagJSON (JObject ps) =
     ({''name'', ''url'', ''history''} \<subseteq> dom ps \<and>
      dom ps \<subseteq> {''name'', ''url'', ''history'', ''following''} \<and>
      is_string (ps ''name'') \<and>
      is_string (ps ''url'') \<and>
      is_array_of claimed_ApiHistoryJSON (ps ''history'') \<and>
      is_optional_boolean (ps ''following''))"
| "claimed_ApiHashtagJSON x = False"

section \<open>The onboarding screen (\<open>Follows\<close>)\<close>

subsection \<open>Data\<close>

datatype Mode = Remove | Add

text \<open>
  \<open>ApiAccountJSON\<close> is imported by the component, which reads only the \<open>id\<close> of a
  record; the remaining properties are carried along as \<open>other_fields\<close>.
\<close>

record 'r ApiAccountJSON =
  id_field :: js_string
  other_fields :: 'r

text \<open>
  A suggestion of the store, of which the component reads only the \<open>account_id\<close>.
\<close>

record 's Suggestion =
  account_id :: js_string
  suggestion_fields :: 's

text \<open>The store actions the component dispatches.\<close>

datatype 'r action =
    FetchSuggestions
  | MarkAsPartial js_string
  | ImportFetchedAccounts "'r ApiAccountJSON list"
  | FetchRelationships "js_string list"

text \<open>
  Everything the component does to the outside or to its own hooks, in the order it
  does it. An \<open>AbortController\<close> is identified by the number of controllers created
  before it. \<open>ApiRequest c q\<close> is the \<open>GET\<close> of \<open>v1/accounts/search\<close> with the
  signal of the controller \<open>c\<close> and the parameter \<open>q\<close>.
\<close>

datatype 'r effect =
    Dispatch "'r action"
  | SetSearchAccountIds "js_string list"
  | SetMode Mode
  | SetSearching bool
  | Abort nat
  | NewAbortController nat
  | ApiRequest nat js_string

text \<open>
  The hooks of \<open>Follows\<close> (\<open>useState\<close> three times, \<open>useRef\<close> once) and the part of the
  environment they act on: the controllers created so far, the ones whose signal has
  been aborted, the requests issued and not yet settled (each with the controller whose
  signal it was given and its \<open>q\<close> parameter), and the trace of effects.
\<close>

record 'r state =
  searchAccountIds :: "js_string list"
  mode :: Mode
  searching :: bool
  searchRequestRef :: "nat option"
  controllers :: nat
  aborted :: "nat set"
  pending :: "(nat \<times> js_string) list"
  trace :: "'r effect list"

definition init :: "'r state" where
  "init = \<lparr> searchAccountIds = [], mode = Remove, searching = False,
            searchRequestRef = None, controllers = 0, aborted = {},
            pending = [], trace = [] \<rparr>"

subsection \<open>Primitive effects\<close>

definition dispatch :: "'r action \<Rightarrow> 'r state \<Rightarrow> 'r state" where
  "dispatch a st = st\<lparr> trace := trace st @ [Dispatch a] \<rparr>"

definition setSearchAccountIds :: "js_string list \<Rightarrow> 'r state \<Rightarrow> 'r state" where
  "setSearchAccountIds ids st =
     st\<lparr> searchAccountIds := ids, trace := trace st @ [SetSearchAccountIds ids] \<rparr>"

definition setMode :: "Mode \<Rightarrow> 'r state \<Rightarrow> 'r state" where
  "setMode m st = st\<lparr> mode := m, trace := trace st @ [SetMode m] \<rparr>"

definition setSearching :: "bool \<Rightarrow> 'r state \<Rightarrow> 'r state" where
  "setSearching b st = st\<lparr> searching := b, trace := trace st @ [SetSearching b] \<rparr>"

definition abort :: "nat \<Rightarrow> 'r state \<Rightarrow> 'r state" where
  "abort c st = st\<lparr> aborted := insert c (aborted st), trace := trace st @ [Abort c] \<rparr>"

definition newAbortController :: "'r state \<Rightarrow> nat \<times> 'r state" where
  "newAbortController st =
     (controllers st,
      st\<lparr> controllers := Suc (controllers st),
          trace := trace st @ [NewAbortController (controllers st)] \<rparr>)"

definition apiRequest :: "nat \<Rightarrow> js_string \<Rightarrow> 'r state \<Rightarrow> 'r state" where
  "apiRequest c q st =
     st\<lparr> pending := pending st @ [(c, q)], trace := trace st @ [ApiRequest c q] \<rparr>"

subsection \<open>Event handlers\<close>

definition handleSearchClick :: "'r state \<Rightarrow> 'r state" where
  "handleSearchClick st = setMode Add st"

definition handleDismissSearchClick :: "'r state \<Rightarrow> 'r state" where
  "handleDismissSearchClick st = setMode Remove st"

text \<open>
  The function wrapped by \<open>useDebouncedCallback\<close>, up to the point where it has issued
  the request; the two promise callbacks follow.
\<close>

definition handleSearch :: "js_string \<Rightarrow> 'r state \<Rightarrow> 'r state" where
  "handleSearch v st =
     (let st1 = (case searchRequestRef st of Some c \<Rightarrow> abort c st | None \<Rightarrow> st)
      in if length (trim v) = 0 then setSearchAccountIds [] st1
         else
           (let st2 = setSearching True st1;
                (c, st3) = newAbortController st2;
                st4 = st3\<lparr> searchRequestRef := Some c \<rparr>
            in apiRequest c v st4))"

text \<open>The \<open>then\<close> callback, given the response body.\<close>

definition onFulfilled :: "'r ApiAccountJSON list \<Rightarrow> 'r state \<Rightarrow> 'r state" where
  "onFulfilled data st =
     setSearching False
       (setSearchAccountIds (map id_field data)
          (dispatch (FetchRelationships (map id_field data))
             (dispatch (ImportFetchedAccounts data) st)))"

text \<open>The \<open>catch\<close> callback.\<close>

definition onRejected :: "'r state \<Rightarrow> 'r state" where
  "onRejected st = setSearching False st"

text \<open>
  How a request ends, and how the promise \<open>apiRequest(...).then(...).catch(...)\<close> ends.
  The \<open>then\<close> callback returns \<open>''\<close>, the \<open>catch\<close> callback returns normally; neither
  throws, so the chain is fulfilled either way.
\<close>

datatype 'a outcome = Fulfilled 'a | Rejected

definition settle :: "'r ApiAccountJSON list outcome \<Rightarrow> 'r state \<Rightarrow> 'r state \<times> unit outcome" where
  "settle r st =
     (case r of
        Fulfilled data \<Rightarrow> (onFulfilled data st, Fulfilled ())
      | Rejected \<Rightarrow> (onRejected st, Fulfilled ()))"

text \<open>The effect run on mount, and its cleanup.\<close>

definition mountEffect :: "'r state \<Rightarrow> 'r state" where
  "mountEffect st = dispatch FetchSuggestions st"

definition unmountCleanup :: "'r state \<Rightarrow> 'r state" where
  "unmountCleanup st = dispatch (MarkAsPartial [0x68, 0x6F, 0x6D, 0x65]) st"

text \<open>
  What is rendered: the list shown, and the handlers wired to the header. In mode
  \<open>Remove\<close> the header carries the search button; in mode \<open>Add\<close> it is the search
  header, with its back button and its input.
\<close>

definition displayedAccountIds :: "'s Suggestion list \<Rightarrow> 'r state \<Rightarrow> js_string list" where
  "displayedAccountIds suggestions st =
     (if mode st = Add then searchAccountIds st else map account_id suggestions)"

subsection \<open>The component as a transition system\<close>

text \<open>
  An event is a click, an execution of the search handler's body, the settlement of a
  request, or mount/unmount. A request settles once: the settlement of a request that
  is not pending is no event of the system and leaves the state as it is. A request
  whose signal was aborted may still be fulfilled (a transport that is late to honour
  the signal) or be rejected.
\<close>

datatype 'r event =
    Mount
  | Unmount
  | SearchClick
  | DismissSearchClick
  | Search js_string
  | Settled nat "'r ApiAccountJSON list outcome"

definition is_pending :: "nat \<Rightarrow> 'r state \<Rightarrow> bool" where
  "is_pending c st = (c \<in> fst ` set (pending st))"

definition remove_pending :: "nat \<Rightarrow> 'r state \<Rightarrow> 'r state" where
  "remove_pending c st = st\<lparr> pending := filter (\<lambda>r. fst r \<noteq> c) (pending st) \<rparr>"

fun step :: "'r event \<Rightarrow> 'r state \<Rightarrow> 'r state" where
  "step Mount st = mountEffect st"
| "step Unmount st = unmountCleanup st"
| "step SearchClick st = handleSearchClick st"
| "step DismissSearchClick st = handleDismissSearchClick st"
| "step (Search v) st = handleSearch v st"
| "step (Settled c r) st =
     (if is_pending c st then fst (settle r (remove_pending c st)) else st)"

fun run :: "'r event list \<Rightarrow> 'r state \<Rightarrow> 'r state" where
  "run [] st = st"
| "run (e # es) st = run es (step e st)"

text \<open>
  The requests in flight: issued, not settled, and their signal not aborted.
\<close>

definition in_flight :: "'r state \<Rightarrow> (nat \<times> js_string) list" where
  "in_flight st = filter (\<lambda>r. fst r \<notin> aborted st) (pending st)"

text \<open>
  The click handlers of the header that is rendered in a mode: the search button of
  the column header in mode \<open>Remove\<close>, the back button of the search header in mode
  \<open>Add\<close>.
\<close>

definition header_handlers :: "Mode \<Rightarrow> 'r event list" where
  "header_handlers m = (case m of Remove \<Rightarrow> [SearchClick] | Add \<Rightarrow> [DismissSearchClick])"

text \<open>
  The abort that opens the search handler: one \<open>Abort\<close> for the controller the ref
  holds, none when the ref is \<open>null\<close>.
\<close>

definition abort_previous :: "'r state \<Rightarrow> 'r effect list" where
  "abort_previous st = (case searchRequestRef st of None \<Rightarrow> [] | Some c \<Rightarrow> [Abort c])"

fun is_request :: "'r effect \<Rightarrow> bool" where
  "is_request (ApiRequest c q) = True"
| "is_request e = False"

definition requests :: "'r state \<Rightarrow> nat" where
  "requests st = length (filter is_request (trace st))"

text \<open>
  The invariant of the single slot: pending requests carry distinct controllers; the
  controllers of pending requests, the aborted ones and the one the ref holds have all
  been created; a pending request whose signal is not aborted is the one the ref holds;
  and a signal counts as aborted exactly when an \<open>Abort\<close> for it is in the trace.
\<close>

definition single_slot :: "'r state \<Rightarrow> bool" where
  "single_slot st =
     (distinct (map fst (pending st)) \<and>
      list_all (\<lambda>r. fst r < controllers st) (pending st) \<and>
      list_all (\<lambda>r. fst r \<in> aborted st \<or> searchRequestRef st = Some (fst r)) (pending st) \<and>
      aborted st \<subseteq> {..<controllers st} \<and>
      set_option (searchRequestRef st) \<subseteq> {..<controllers st} \<and>
      aborted st = {c. Abort c \<in> set (trace st)})"

subsection \<open>The debounced handler\<close>

text \<open>
  Modelled from the spec: \<open>useDebouncedCallback\<close> comes from the package
  \<open>use-debounce\<close>, which is not among the sources; the component passes it the handler,
  the wait of 500 and the options \<open>leading\<close> and \<open>trailing\<close>, both true. The spec
  describes it as a timer-based coalescer that fires immediately on the first call in a
  quiet period (leading) and again after the quiet period ends if additional calls
  arrived (trailing). Time is a natural number of time units. The coalescer holds the
  time at which its timer expires, if it runs, and the argument of the last call that
  was held back. Every call restarts the timer.
\<close>

definition wait :: nat where
  "wait = 500"

record debounce =
  timer :: "nat option"
  lastArgs :: "js_string option"

definition idle :: debounce where
  "idle = \<lparr> timer = None, lastArgs = None \<rparr>"

text \<open>
  The timer, looked at when the clock shows \<open>now\<close>: once expired it passes the
  held-back argument on (the trailing execution, at the expiry time) and the coalescer
  is idle again. The result lists the executions of the handler, each with its time.
\<close>

definition timerExpired :: "nat \<Rightarrow> debounce \<Rightarrow> (nat \<times> js_string) list \<times> debounce" where
  "timerExpired now d =
     (case timer d of
        None \<Rightarrow> ([], d)
      | Some t \<Rightarrow>
          if now < t then ([], d)
          else ((case lastArgs d of None \<Rightarrow> [] | Some v \<Rightarrow> [(t, v)]), idle))"

text \<open>
  A call of the debounced function at time \<open>now\<close>: on an idle coalescer the handler
  runs at once (the leading execution); while the timer runs the argument is held back.
\<close>

definition debounced :: "nat \<Rightarrow> js_string \<Rightarrow> debounce \<Rightarrow> (nat \<times> js_string) list \<times> debounce" where
  "debounced now v d =
     (let (fired, d1) = timerExpired now d
      in case timer d1 of
           None \<Rightarrow> (fired @ [(now, v)], \<lparr> timer = Some (now + wait), lastArgs = None \<rparr>)
         | Some t \<Rightarrow> (fired, \<lparr> timer = Some (now + wait), lastArgs = Some v \<rparr>))"

fun debounced_calls ::
  "(nat \<times> js_string) list \<Rightarrow> debounce \<Rightarrow> (nat \<times> js_string) list \<times> debounce" where
  "debounced_calls [] d = ([], d)"
| "debounced_calls ((t, v) # cs) d =
     (let (fired1, d1) = debounced t v d;
          (fired2, d2) = debounced_calls cs d1
      in (fired1 @ fired2, d2))"

text \<open>
  The coalescer is quiet at a time when no timer runs then: none was started, or the
  one started has expired.
\<close>

definition quiet :: "nat \<Rightarrow> debounce \<Rightarrow> bool" where
  "quiet now d = (case timer d of None \<Rightarrow> True | Some t \<Rightarrow> t \<le> now)"

text \<open>
  The executions of the handler that a sequence of timed calls leads to, from a given
  coalescer and up to the time \<open>now\<close>, with the coalescer as it is then.
\<close>

definition executions_until ::
  "nat \<Rightarrow> (nat \<times> js_string) list \<Rightarrow> debounce \<Rightarrow> (nat \<times> js_string) list \<times> debounce" where
  "executions_until now cs d =
     (let (fired, d1) = debounced_calls cs d;
          (trailing, d2) = timerExpired now d1
      in (fired @ trailing, d2))"

text \<open>
  Successive calls are rapid when each comes less than the wait after the one before.
\<close>

fun rapid :: "nat \<Rightarrow> (nat \<times> js_string) list \<Rightarrow> bool" where
  "rapid t [] = True"
| "rapid t ((t', v) # cs) = (t \<le> t' \<and> t' < t + wait \<and> rapid t' cs)"

section \<open>Properties\<close>

subsection \<open>Trimming\<close>

lemma all_dropWhile: "(\<forall>x\<in>set (dropWhile P xs). P x) \<longleftrightarrow> (\<forall>x\<in>set xs. P x)"
  by (induction xs) auto

text \<open>
  The trimmed form is empty exactly for the strings of white space, the empty string
  among them.
\<close>

lemma trim_Nil_iff: "trim v = [] \<longleftrightarrow> (\<forall>c\<in>set v. is_white_space c)"
  by (simp add: trim_def dropWhile_eq_Nil_conv all_dropWhile)

subsection \<open>What the handlers do to the state\<close>

lemmas prims = dispatch_def setSearchAccountIds_def setMode_def setSearching_def abort_def
  newAbortController_def apiRequest_def

lemmas eval_defs = handleSearch_def prims trim_def is_white_space_def js_white_space_def
  init_def settle_def onFulfilled_def onRejected_def is_pending_def remove_pending_def
  in_flight_def handleSearchClick_def handleDismissSearchClick_def abort_previous_def

lemma handleSearch_empty:
  "trim v = [] \<Longrightarrow> handleSearch v st =
     st\<lparr> searchAccountIds := [],
         aborted := (case searchRequestRef st of None \<Rightarrow> aborted st
                     | Some c \<Rightarrow> insert c (aborted st)),
         trace := trace st @ abort_previous st @ [SetSearchAccountIds []] \<rparr>"
  by (simp add: handleSearch_def prims abort_previous_def split: option.splits)

lemma handleSearch_nonempty:
  "trim v \<noteq> [] \<Longrightarrow> handleSearch v st =
     st\<lparr> searching := True,
         searchRequestRef := Some (controllers st),
         controllers := Suc (controllers st),
         aborted := (case searchRequestRef st of None \<Rightarrow> aborted st
                     | Some c \<Rightarrow> insert c (aborted st)),
         pending := pending st @ [(controllers st, v)],
         trace := trace st @ abort_previous st @
           [SetSearching True, NewAbortController (controllers st),
            ApiRequest (controllers st) v] \<rparr>"
  by (simp add: handleSearch_def prims abort_previous_def Let_def split: option.splits)

lemma settle_Fulfilled:
  "fst (settle (Fulfilled R) st) =
     st\<lparr> searchAccountIds := map id_field R, searching := False,
         trace := trace st @ [Dispatch (ImportFetchedAccounts R),
                              Dispatch (FetchRelationships (map id_field R)),
                              SetSearchAccountIds (map id_field R), SetSearching False] \<rparr>"
  by (simp add: settle_def onFulfilled_def prims)

lemma settle_Rejected:
  "fst (settle Rejected st) = st\<lparr> searching := False, trace := trace st @ [SetSearching False] \<rparr>"
  by (simp add: settle_def onRejected_def prims)

lemma mode_handleSearch: "mode (handleSearch v st) = mode st"
  by (cases "trim v = []") (simp_all add: handleSearch_empty handleSearch_nonempty)

lemma mode_settle: "mode (fst (settle r st)) = mode st"
  by (cases r) (simp_all add: settle_Fulfilled settle_Rejected)

subsection \<open>The single slot is an invariant\<close>

lemma single_slot_init: "single_slot init"
  by (simp add: single_slot_def init_def)

lemma single_slot_handleSearch: "single_slot st \<Longrightarrow> single_slot (handleSearch v st)"
proof (cases "trim v = []")
  case True
  assume "single_slot st"
  then show ?thesis
    by (auto simp: handleSearch_empty[OF True] single_slot_def list_all_iff abort_previous_def
        split: option.splits)
next
  case False
  assume "single_slot st"
  then show ?thesis
    by (auto simp: handleSearch_nonempty[OF False] single_slot_def list_all_iff abort_previous_def
        split: option.splits)
qed

lemma single_slot_settle:
  "single_slot st \<Longrightarrow> single_slot (fst (settle r (remove_pending c st)))"
  by (cases r)
     (auto simp: settle_Fulfilled settle_Rejected remove_pending_def single_slot_def
        list_all_iff distinct_map_filter)

lemma single_slot_step: "single_slot st \<Longrightarrow> single_slot (step e st)"
proof (cases e)
  case (Search v)
  assume "single_slot st"
  with Search show ?thesis by (simp add: single_slot_handleSearch)
next
  case (Settled c r)
  assume "single_slot st"
  with Settled show ?thesis by (simp add: single_slot_settle)
qed (auto simp: single_slot_def mountEffect_def unmountCleanup_def handleSearchClick_def
       handleDismissSearchClick_def prims)

lemma single_slot_run: "single_slot st \<Longrightarrow> single_slot (run es st)"
  by (induction es arbitrary: st) (simp_all add: single_slot_step)

lemma filter_key_le1: "distinct (map f xs) \<Longrightarrow> length (filter (\<lambda>x. f x = k) xs) \<le> Suc 0"
proof (induction xs)
  case Nil
  then show ?case by simp
next
  case (Cons x xs)
  show ?case
  proof (cases "f x = k")
    case True
    from Cons.prems have "f x \<notin> f ` set xs" by simp
    with True have "\<forall>y\<in>set xs. f y \<noteq> k" by blast
    then have "filter (\<lambda>x. f x = k) xs = []"
      by (simp add: filter_empty_conv)
    with True show ?thesis by simp
  next
    case False
    with Cons show ?thesis by simp
  qed
qed

lemma single_slot_in_flight:
  assumes "single_slot st"
  shows "length (in_flight st) \<le> 1"
proof (cases "searchRequestRef st")
  case None
  with assms have "in_flight st = []"
    by (auto simp: in_flight_def single_slot_def list_all_iff filter_empty_conv)
  then show ?thesis by simp
next
  case (Some c)
  with assms have "in_flight st =
      filter (\<lambda>r. fst r \<notin> aborted st) (filter (\<lambda>r. fst r = c) (pending st))"
    unfolding in_flight_def filter_filter
    by (intro filter_cong) (auto simp: single_slot_def list_all_iff)
  then have "length (in_flight st) \<le> length (filter (\<lambda>r. fst r = c) (pending st))"
    by (simp only: length_filter_le)
  also have "\<dots> \<le> 1"
    using assms filter_key_le1[of fst "pending st" c] by (simp add: single_slot_def)
  finally show ?thesis .
qed

subsection \<open>Requests issued\<close>

lemma requests_handleSearch: "requests (handleSearch v st) \<le> Suc (requests st)"
  by (cases "trim v = []")
     (simp_all add: handleSearch_empty handleSearch_nonempty requests_def abort_previous_def
        split: option.splits)

lemma requests_run_Search:
  "requests (run (map (\<lambda>x. Search (snd x)) xs) st) \<le> requests st + length xs"
proof (induction xs arbitrary: st)
  case Nil
  then show ?case by simp
next
  case (Cons x xs)
  have "requests (run (map (\<lambda>x. Search (snd x)) xs) (handleSearch (snd x) st))
          \<le> requests (handleSearch (snd x) st) + length xs"
    by (rule Cons.IH)
  also have "\<dots> \<le> Suc (requests st) + length xs"
    using requests_handleSearch[of "snd x" st] by simp
  finally show ?case by simp
qed

subsection \<open>The coalescer on a burst of calls\<close>

lemma debounced_running:
  "timer d = Some T \<Longrightarrow> t < T \<Longrightarrow>
     debounced t v d = ([], \<lparr> timer = Some (t + wait), lastArgs = Some v \<rparr>)"
  by (simp add: debounced_def timerExpired_def)

lemma debounced_idle:
  "debounced t v idle = ([(t, v)], \<lparr> timer = Some (t + wait), lastArgs = None \<rparr>)"
  by (simp add: debounced_def timerExpired_def idle_def)

lemma rapid_calls_held:
  "rapid t cs \<Longrightarrow> timer d = Some (t + wait) \<Longrightarrow> cs \<noteq> [] \<Longrightarrow>
     debounced_calls cs d =
       ([], \<lparr> timer = Some (fst (last cs) + wait), lastArgs = Some (snd (last cs)) \<rparr>)"
proof (induction cs arbitrary: t d)
  case Nil
  then show ?case by simp
next
  case (Cons c cs)
  obtain t' v where c: "c = (t', v)" by (cases c)
  from Cons.prems c have t': "t' < t + wait" and r: "rapid t' cs" by simp_all
  have first: "debounced t' v d = ([], \<lparr> timer = Some (t' + wait), lastArgs = Some v \<rparr>)"
    using Cons.prems(2) t' by (rule debounced_running)
  show ?case
  proof (cases "cs = []")
    case True
    with c first show ?thesis by simp
  next
    case False
    with Cons.IH[OF r, of "\<lparr> timer = Some (t' + wait), lastArgs = Some v \<rparr>"] c first
    show ?thesis by simp
  qed
qed

lemma rapid_calls:
  "rapid t cs \<Longrightarrow> timer d = Some (t + wait) \<Longrightarrow>
     debounced_calls cs d =
       ([], if cs = [] then d
            else \<lparr> timer = Some (fst (last cs) + wait), lastArgs = Some (snd (last cs)) \<rparr>)"
  using rapid_calls_held[of t cs d] by (cases "cs = []") simp_all

lemma debounced_quiet:
  "quiet t d \<Longrightarrow>
     debounced t v d =
       ((case timer d of None \<Rightarrow> []
         | Some T \<Rightarrow> (case lastArgs d of None \<Rightarrow> [] | Some w \<Rightarrow> [(T, w)])) @ [(t, v)],
        \<lparr> timer = Some (t + wait), lastArgs = None \<rparr>)"
  by (simp add: debounced_def timerExpired_def quiet_def idle_def split: option.splits)

lemma burst_from_quiet:
  assumes q: "quiet t d" and r: "rapid t cs" and n: "fst (last ((t, v) # cs)) + wait \<le> now"
  shows "executions_until now ((t, v) # cs) d =
     ((case timer d of None \<Rightarrow> []
       | Some T \<Rightarrow> (case lastArgs d of None \<Rightarrow> [] | Some w \<Rightarrow> [(T, w)])) @
      (t, v) # (if cs = [] then [] else [(fst (last cs) + wait, snd (last cs))]),
      idle)"
proof (cases "cs = []")
  case True
  with n show ?thesis
    by (simp add: executions_until_def debounced_quiet[OF q] timerExpired_def)
next
  case False
  with n rapid_calls[OF r, of "\<lparr> timer = Some (t + wait), lastArgs = None \<rparr>"]
  show ?thesis
    by (simp add: executions_until_def debounced_quiet[OF q] timerExpired_def)
qed

subsection \<open>The values of the two interfaces\<close>

lemma is_string_iff: "is_string x \<longleftrightarrow> (\<exists>s. x = Some (JString s))"
  by (cases x rule: is_string.cases) simp_all

lemma is_optional_boolean_iff:
  "is_optional_boolean x \<longleftrightarrow> x = None \<or> (\<exists>b. x = Some (JBool b))"
  by (cases x rule: is_optional_boolean.cases) simp_all

lemma is_array_of_iff: "is_array_of T x \<longleftrightarrow> (\<exists>xs. x = Some (JArray xs) \<and> list_all T xs)"
  by (cases "(T, x)" rule: is_array_of.cases) simp_all

lemma ApiHistoryJSON_iff:
  "ApiHistoryJSON p \<longleftrightarrow>
     (\<exists>ps d a u. p = JObject ps \<and> ps ''day'' = Some (JString d) \<and>
        ps ''accounts'' = Some (JString a) \<and> ps ''uses'' = Some (JString u))"
  by (cases p) (auto simp: is_string_iff)

lemma ApiHashtagJSON_iff:
  "ApiHashtagJSON x \<longleftrightarrow>
     (\<exists>ps n u hs. x = JObject ps \<and> ps ''name'' = Some (JString n) \<and>
        ps ''url'' = Some (JString u) \<and>
        ps ''history'' = Some (JArray hs) \<and> list_all ApiHistoryJSON hs \<and>
        (ps ''following'' = None \<or> (\<exists>b. ps ''following'' = Some (JBool b))))"
  by (cases x) (auto simp: is_string_iff is_array_of_iff is_optional_boolean_iff)

lemma numeric_is_string: "numeric_string x \<Longrightarrow> is_string x"
  by (cases x rule: numeric_string.cases) simp_all

lemma claimed_ApiHistoryJSON_included: "claimed_ApiHistoryJSON x \<Longrightarrow> ApiHistoryJSON x"
  by (cases x) (simp_all add: numeric_is_string)

lemma claimed_ApiHashtagJSON_included:
  assumes "claimed_ApiHashtagJSON x"
  shows "ApiHashtagJSON x"
proof (cases x)
  case (JObject ps)
  have "is_array_of claimed_ApiHistoryJSON y \<Longrightarrow> is_array_of ApiHistoryJSON y"
    for y :: "'a json option"
    by (cases "(claimed_ApiHistoryJSON :: 'a json \<Rightarrow> bool, y)" rule: is_array_of.cases)
       (auto simp: list_all_iff claimed_ApiHistoryJSON_included)
  with assms JObject show ?thesis by simp
qed (use assms in simp_all)

lemma ApiHashtagJSON_extra_property:
  "ApiHashtagJSON (JObject ps) \<Longrightarrow> k \<notin> {''name'', ''url'', ''history'', ''following''} \<Longrightarrow>
     ApiHashtagJSON (JObject (ps(k \<mapsto> v)))"
  by auto

section \<open>The claims\<close>

text \<open>
  C1. A request is in flight when it is pending and its signal has not been aborted.
  In every state the component reaches there is at most one such request. When the
  search handler runs there on a query whose trimmed form is not empty, its effects end
  with the new request, every request that was pending has an \<open>Abort\<close> for its
  controller earlier in the trace, and the new request is then the only one in flight.
\<close>

theorem single_request_in_flight:
  "length (in_flight (run es init)) \<le> 1 \<and>
   (trim v \<noteq> [] \<longrightarrow>
      (\<exists>pre. trace (handleSearch v (run es init)) =
               pre @ [SetSearching True, NewAbortController (controllers (run es init)),
                      ApiRequest (controllers (run es init)) v] \<and>
             list_all (\<lambda>r. Abort (fst r) \<in> set pre) (pending (run es init))) \<and>
      in_flight (handleSearch v (run es init)) = [(controllers (run es init), v)])"
proof -
  define st :: "'a state" where "st = run es init"
  have inv: "single_slot st"
    unfolding st_def by (rule single_slot_run) (rule single_slot_init)
  have one: "length (in_flight st) \<le> 1"
    using inv by (rule single_slot_in_flight)
  have issue: "(\<exists>pre. trace (handleSearch v st) =
               pre @ [SetSearching True, NewAbortController (controllers st),
                      ApiRequest (controllers st) v] \<and>
             list_all (\<lambda>r. Abort (fst r) \<in> set pre) (pending st)) \<and>
      in_flight (handleSearch v st) = [(controllers st, v)]" if ne: "trim v \<noteq> []"
  proof
    have "list_all (\<lambda>r. Abort (fst r) \<in> set (trace st @ abort_previous st)) (pending st)"
      using inv by (auto simp: single_slot_def list_all_iff abort_previous_def)
    then show "\<exists>pre. trace (handleSearch v st) =
               pre @ [SetSearching True, NewAbortController (controllers st),
                      ApiRequest (controllers st) v] \<and>
             list_all (\<lambda>r. Abort (fst r) \<in> set pre) (pending st)"
      by (intro exI[of _ "trace st @ abort_previous st"])
         (simp add: handleSearch_nonempty[OF ne])
    have old: "filter (\<lambda>r. fst r \<notin> aborted (handleSearch v st)) (pending st) = []"
      using inv
      by (auto simp: handleSearch_nonempty[OF ne] single_slot_def list_all_iff filter_empty_conv
          split: option.splits)
    have new: "controllers st \<notin> aborted (handleSearch v st)"
      using inv
      by (auto simp: handleSearch_nonempty[OF ne] single_slot_def split: option.splits)
    have "pending (handleSearch v st) = pending st @ [(controllers st, v)]"
      by (simp add: handleSearch_nonempty[OF ne])
    with old new show "in_flight (handleSearch v st) = [(controllers st, v)]"
      by (simp add: in_flight_def)
  qed
  from one issue show ?thesis unfolding st_def by blast
qed

text \<open>
  The query \<open>a\<close> is issued, then \<open>ab\<close> before the first request has settled: the
  controller of the first request is aborted before the second request goes out. Both
  requests are pending then, the first with its signal aborted, until the first settles.
\<close>

theorem single_request_in_flight_witness:
  "trim [0x61, 0x62] \<noteq> [] \<and>
   pending (run [Search [0x61]] (init :: unit state)) = [(0, [0x61])] \<and>
   pending (handleSearch [0x61, 0x62] (run [Search [0x61]] (init :: unit state)))
     = [(0, [0x61]), (1, [0x61, 0x62])] \<and>
   aborted (handleSearch [0x61, 0x62] (run [Search [0x61]] (init :: unit state))) = {0} \<and>
   in_flight (handleSearch [0x61, 0x62] (run [Search [0x61]] (init :: unit state)))
     = [(1, [0x61, 0x62])] \<and>
   trace (handleSearch [0x61, 0x62] (run [Search [0x61]] (init :: unit state))) =
     [SetSearching True, NewAbortController 0, ApiRequest 0 [0x61], Abort 0,
      SetSearching True, NewAbortController 1, ApiRequest 1 [0x61, 0x62]]"
  using single_request_in_flight[of "[Search [0x61]] :: unit event list" "[0x61, 0x62]"]
  by (simp add: eval_defs)

text \<open>
  C2. When a pending request is fulfilled with the records \<open>R\<close>, the result list
  becomes the identifiers of \<open>R\<close> in the order of \<open>R\<close>, the searching flag becomes
  false, and in mode \<open>Add\<close> the list displayed is that result list.
\<close>

theorem search_success_sets_results:
  "is_pending c st \<Longrightarrow>
     searchAccountIds (step (Settled c (Fulfilled R)) st) = map id_field R \<and>
     searching (step (Settled c (Fulfilled R)) st) = False \<and>
     displayedAccountIds suggestions ((step (Settled c (Fulfilled R)) st)\<lparr> mode := Add \<rparr>)
       = map id_field R"
  by (simp add: settle_Fulfilled displayedAccountIds_def)

text \<open>The query \<open>al\<close> is answered with the accounts \<open>1\<close> and \<open>2\<close>.\<close>

theorem search_success_sets_results_witness:
  "is_pending 0 (run [Search [0x61, 0x6C]] (init :: unit state)) \<and>
   searching (run [Search [0x61, 0x6C]] (init :: unit state)) = True \<and>
   searchAccountIds
     (run [Search [0x61, 0x6C],
           Settled 0 (Fulfilled [\<lparr> id_field = [0x31], other_fields = () \<rparr>,
                                 \<lparr> id_field = [0x32], other_fields = () \<rparr>])] init)
     = [[0x31], [0x32]] \<and>
   searching
     (run [Search [0x61, 0x6C],
           Settled 0 (Fulfilled [\<lparr> id_field = [0x31], other_fields = () \<rparr>,
                                 \<lparr> id_field = [0x32], other_fields = () \<rparr>])] init)
     = False"
proof -
  have p: "is_pending 0 (run [Search [0x61, 0x6C]] (init :: unit state))"
    by (simp add: eval_defs)
  have s: "searching (run [Search [0x61, 0x6C]] (init :: unit state)) = True"
    by (simp add: eval_defs)
  from p s search_success_sets_results[OF p,
      of "[\<lparr> id_field = [0x31], other_fields = () \<rparr>, \<lparr> id_field = [0x32], other_fields = () \<rparr>]"
         "[] :: unit Suggestion list"]
  show ?thesis by simp
qed

text \<open>
  C3. On a query whose trimmed form is empty the search handler empties the result
  list in the same step, issues no request (the pending requests and the number of
  requests in the trace stay as they were), and its only effects are the opening abort
  and the update of the result list.
\<close>

theorem empty_query_clears_results:
  "length (trim v) = 0 \<Longrightarrow>
     searchAccountIds (handleSearch v st) = [] \<and>
     pending (handleSearch v st) = pending st \<and>
     requests (handleSearch v st) = requests st \<and>
     trace (handleSearch v st) = trace st @ abort_previous st @ [SetSearchAccountIds []]"
  by (simp add: handleSearch_empty requests_def abort_previous_def split: option.splits)

text \<open>A query of a space, a tab and a space, with one result on display.\<close>

theorem empty_query_clears_results_witness:
  "length (trim [0x20, 0x09, 0x20]) = 0 \<and>
   searchAccountIds (init\<lparr> searchAccountIds := [[0x31]] \<rparr> :: unit state) = [[0x31]] \<and>
   searchAccountIds
     (handleSearch [0x20, 0x09, 0x20] (init\<lparr> searchAccountIds := [[0x31]] \<rparr> :: unit state)) = [] \<and>
   trace (handleSearch [0x20, 0x09, 0x20] (init\<lparr> searchAccountIds := [[0x31]] \<rparr> :: unit state))
     = [SetSearchAccountIds []]"
proof -
  have e: "length (trim [0x20, 0x09, 0x20]) = 0"
    by (simp add: trim_def is_white_space_def js_white_space_def)
  from e empty_query_clears_results[OF e, of "init\<lparr> searchAccountIds := [[0x31]] \<rparr> :: unit state"]
  show ?thesis by (simp add: init_def abort_previous_def)
qed

text \<open>
  C4. When a pending request is rejected, by a failure or by its abort, the searching
  flag becomes false, the result list stays as it was, the only effect is the update of
  the flag, and the promise chain is fulfilled: no rejection is left to surface.
\<close>

theorem failed_search_resets_flag:
  "is_pending c st \<Longrightarrow>
     searching (step (Settled c Rejected) st) = False \<and>
     searchAccountIds (step (Settled c Rejected) st) = searchAccountIds st \<and>
     trace (step (Settled c Rejected) st) = trace st @ [SetSearching False] \<and>
     snd (settle Rejected (remove_pending c st)) = Fulfilled ()"
  by (simp add: settle_Rejected remove_pending_def) (simp add: settle_def)

theorem failed_search_resets_flag_witness:
  "is_pending 0 (run [Search [0x61]] (init :: unit state)) \<and>
   searching (run [Search [0x61]] (init :: unit state)) = True \<and>
   searching (run [Search [0x61], Settled 0 Rejected] (init :: unit state)) = False \<and>
   searchAccountIds (run [Search [0x61], Settled 0 Rejected] (init :: unit state)) = []"
proof -
  have p: "is_pending 0 (run [Search [0x61]] (init :: unit state))"
    by (simp add: eval_defs)
  have s: "searching (run [Search [0x61]] (init :: unit state)) = True"
    by (simp add: eval_defs)
  have i: "searchAccountIds (run [Search [0x61]] (init :: unit state)) = []"
    by (simp add: eval_defs)
  from p s i failed_search_resets_flag[OF p] show ?thesis by simp
qed

text \<open>
  C5. A burst of calls of the debounced handler, each less than 500 time units after
  the one before, that begins on a quiet coalescer, whatever went on before: up to any
  time at least 500 units after the last call, the handler body has run for the first
  call, at the time of that call, and, when more calls followed, once more for the last
  call, 500 time units after it; for no other call of the burst. Ahead of these comes
  only the trailing execution that the expired timer still owed to the calls before the
  quiet period. The coalescer is idle afterwards, hence quiet for the next burst. The
  executions of the burst issue at most two requests.
\<close>

theorem debounce_leading_trailing:
  "quiet t d \<Longrightarrow> rapid t cs \<Longrightarrow> fst (last ((t, v) # cs)) + 500 \<le> now \<Longrightarrow>
     executions_until now ((t, v) # cs) d =
       ((case timer d of None \<Rightarrow> []
         | Some T \<Rightarrow> (case lastArgs d of None \<Rightarrow> [] | Some w \<Rightarrow> [(T, w)])) @
        (t, v) # (if cs = [] then [] else [(fst (last cs) + 500, snd (last cs))]),
        idle) \<and>
     quiet now (snd (executions_until now ((t, v) # cs) d)) \<and>
     requests (run (map (\<lambda>x. Search (snd x))
         ((t, v) # (if cs = [] then [] else [(fst (last cs) + 500, snd (last cs))]))) st)
       \<le> requests st + 2"
proof -
  assume q: "quiet t d" and r: "rapid t cs" and n: "fst (last ((t, v) # cs)) + 500 \<le> now"
  from n have n': "fst (last ((t, v) # cs)) + wait \<le> now"
    by (simp add: wait_def)
  note ex = burst_from_quiet[OF q r n']
  have "length ((t, v) # (if cs = [] then [] else [(fst (last cs) + 500, snd (last cs))])) \<le> 2"
    by simp
  with requests_run_Search[of
      "(t, v) # (if cs = [] then [] else [(fst (last cs) + 500, snd (last cs))])" st]
  have rq: "requests (run (map (\<lambda>x. Search (snd x))
         ((t, v) # (if cs = [] then [] else [(fst (last cs) + 500, snd (last cs))]))) st)
       \<le> requests st + 2"
    by linarith
  have qi: "quiet now idle"
    by (simp add: quiet_def idle_def)
  from ex rq qi show ?thesis
    by (simp add: wait_def)
qed

text \<open>
  The queries \<open>a\<close>, \<open>ab\<close> at the times 0 and 100, then \<open>c\<close>, \<open>d\<close> at the times 700
  and 750. The second burst meets the coalescer as the first one left it, its timer
  expired at 600; the second burst has its own leading and trailing execution.
\<close>

theorem debounce_leading_trailing_witness:
  "snd (debounced_calls [(0, [0x61]), (100, [0x61, 0x62])] idle) =
     \<lparr> timer = Some 600, lastArgs = Some [0x61, 0x62] \<rparr> \<and>
   quiet 700 \<lparr> timer = Some 600, lastArgs = Some [0x61, 0x62] \<rparr> \<and>
   rapid 700 [(750, [0x64])] \<and>
   executions_until 1250 [(700, [0x63]), (750, [0x64])]
       \<lparr> timer = Some 600, lastArgs = Some [0x61, 0x62] \<rparr> =
     ([(600, [0x61, 0x62]), (700, [0x63]), (1250, [0x64])], idle) \<and>
   executions_until 1250
       [(0, [0x61]), (100, [0x61, 0x62]), (700, [0x63]), (750, [0x64])] idle =
     ([(0, [0x61]), (600, [0x61, 0x62]), (700, [0x63]), (1250, [0x64])], idle)"
proof -
  have first: "snd (debounced_calls [(0, [0x61]), (100, [0x61, 0x62])] idle) =
     \<lparr> timer = Some 600, lastArgs = Some [0x61, 0x62] \<rparr>"
    by (simp add: debounced_def timerExpired_def idle_def wait_def)
  have q: "quiet 700 \<lparr> timer = Some 600, lastArgs = Some [0x61, 0x62] \<rparr>"
    by (simp add: quiet_def)
  have r: "rapid 700 [(750, [0x64])]"
    by (simp add: wait_def)
  have n: "fst (last [(700, [0x63]), (750, [0x64])]) + 500 \<le> (1250 :: nat)"
    by simp
  note w = debounce_leading_trailing[OF q r n, of "init :: unit state"]
  have second: "executions_until 1250 [(700, [0x63]), (750, [0x64])]
       \<lparr> timer = Some 600, lastArgs = Some [0x61, 0x62] \<rparr> =
     ([(600, [0x61, 0x62]), (700, [0x63]), (1250, [0x64])], idle)"
    using w[THEN conjunct1] by simp
  have whole: "executions_until 1250
       [(0, [0x61]), (100, [0x61, 0x62]), (700, [0x63]), (750, [0x64])] idle =
     ([(0, [0x61]), (600, [0x61, 0x62]), (700, [0x63]), (1250, [0x64])], idle)"
    by (simp add: executions_until_def debounced_def timerExpired_def idle_def wait_def)
  from first q r second whole show ?thesis by (intro conjI)
qed

text \<open>
  C6. The mode is \<open>Remove\<close> at the start; the search button's handler sets it to
  \<open>Add\<close> and the back button's handler sets it to \<open>Remove\<close>; no other event changes
  the mode; and in either mode the header offers a handler that leaves it, so no mode
  is terminal.
\<close>

theorem mode_state_machine:
  "mode (init :: 'r state) = Remove \<and>
   mode (step SearchClick st) = Add \<and>
   mode (step DismissSearchClick st) = Remove \<and>
   (mode (step e st) \<noteq> mode st \<longrightarrow> e = SearchClick \<or> e = DismissSearchClick) \<and>
   (\<exists>e' \<in> set (header_handlers (mode st)). mode (step e' st) \<noteq> mode st)"
proof -
  have only: "e = SearchClick \<or> e = DismissSearchClick" if "mode (step e st) \<noteq> mode st"
    using that
    by (cases e)
       (simp_all add: mountEffect_def unmountCleanup_def dispatch_def mode_handleSearch
          mode_settle remove_pending_def split: if_splits)
  have leave: "\<exists>e' \<in> set (header_handlers (mode st)). mode (step e' st) \<noteq> mode st"
    by (cases "mode st")
       (simp_all add: header_handlers_def handleSearchClick_def handleDismissSearchClick_def
          setMode_def)
  from only leave show ?thesis
    by (auto simp: init_def handleSearchClick_def handleDismissSearchClick_def setMode_def)
qed

theorem mode_state_machine_witness:
  "mode (init :: unit state) = Remove \<and>
   mode (step SearchClick (init :: unit state)) \<noteq> mode (init :: unit state) \<and>
   mode (run [SearchClick] (init :: unit state)) = Add \<and>
   mode (run [SearchClick, DismissSearchClick] (init :: unit state)) = Remove"
  using mode_state_machine[of "init :: unit state" SearchClick]
    mode_state_machine[of "step SearchClick (init :: unit state)" DismissSearchClick]
  by (simp add: handleSearchClick_def handleDismissSearchClick_def setMode_def init_def)

text \<open>
  C7. When a pending request is fulfilled with the records \<open>R\<close>, the callback
  dispatches the import of \<open>R\<close>, then the relationship fetch for the identifiers of
  \<open>R\<close>, and goes on to its two state updates in the same step: it waits for neither
  dispatch, and the settled request is the only one to leave the pending ones.
\<close>

theorem search_success_dispatches:
  "is_pending c st \<Longrightarrow>
     trace (step (Settled c (Fulfilled R)) st) =
       trace st @ [Dispatch (ImportFetchedAccounts R),
                   Dispatch (FetchRelationships (map id_field R)),
                   SetSearchAccountIds (map id_field R),
                   SetSearching False] \<and>
     pending (step (Settled c (Fulfilled R)) st) = filter (\<lambda>r. fst r \<noteq> c) (pending st)"
  by (simp add: settle_Fulfilled remove_pending_def)

theorem search_success_dispatches_witness:
  "is_pending 0 (run [Search [0x61]] (init :: unit state)) \<and>
   trace (run [Search [0x61],
               Settled 0 (Fulfilled [\<lparr> id_field = [0x37], other_fields = () \<rparr>])] init) =
     [SetSearching True, NewAbortController 0, ApiRequest 0 [0x61],
      Dispatch (ImportFetchedAccounts [\<lparr> id_field = [0x37], other_fields = () \<rparr>]),
      Dispatch (FetchRelationships [[0x37]]),
      SetSearchAccountIds [[0x37]], SetSearching False] \<and>
   pending (run [Search [0x61],
                 Settled 0 (Fulfilled [\<lparr> id_field = [0x37], other_fields = () \<rparr>])] init) = []"
proof -
  have p: "is_pending 0 (run [Search [0x61]] (init :: unit state))"
    by (simp add: eval_defs)
  have t: "trace (run [Search [0x61]] (init :: unit state)) =
      [SetSearching True, NewAbortController 0, ApiRequest 0 [0x61]]"
    by (simp add: eval_defs)
  have q: "pending (run [Search [0x61]] (init :: unit state)) = [(0, [0x61])]"
    by (simp add: eval_defs)
  from p t q search_success_dispatches[OF p, of "[\<lparr> id_field = [0x37], other_fields = () \<rparr>]"]
  show ?thesis by simp
qed

text \<open>
  C8. The back button's handler changes the mode and nothing else: the result list,
  like every other hook, is as before, and the only effect is the update of the mode.
\<close>

theorem back_keeps_search_results:
  "searchAccountIds (step DismissSearchClick st) = searchAccountIds st \<and>
   step DismissSearchClick st = st\<lparr> mode := Remove, trace := trace st @ [SetMode Remove] \<rparr>"
  by (simp add: handleDismissSearchClick_def setMode_def)

text \<open>Search mode is entered, a search succeeds, and the user goes back.\<close>

theorem back_keeps_search_results_witness:
  "searchAccountIds
     (run [SearchClick, Search [0x61],
           Settled 0 (Fulfilled [\<lparr> id_field = [0x37], other_fields = () \<rparr>]),
           DismissSearchClick] init) = [[0x37]] \<and>
   mode
     (run [SearchClick, Search [0x61],
           Settled 0 (Fulfilled [\<lparr> id_field = [0x37], other_fields = () \<rparr>]),
           DismissSearchClick] init) = Remove"
proof -
  have s: "searchAccountIds
     (run [SearchClick, Search [0x61],
           Settled 0 (Fulfilled [\<lparr> id_field = [0x37], other_fields = () \<rparr>])] init) = [[0x37]]"
    by (simp add: eval_defs)
  from s back_keeps_search_results[of
      "run [SearchClick, Search [0x61],
            Settled 0 (Fulfilled [\<lparr> id_field = [0x37], other_fields = () \<rparr>])] init"]
  show ?thesis by simp
qed

text \<open>
  C9, as stated, fails. An object that has the declared members and one more property,
  \<open>id\<close>, has the hashtag type; so has an object whose history point has the accounts
  count \<open>x\<close>, which is no numeric string. Neither has the shape the claim describes.
\<close>

theorem ApiHashtagJSON_not_exact:
  "ApiHashtagJSON
     (JObject [''name'' \<mapsto> JString [0x61], ''url'' \<mapsto> JString [0x62],
               ''history'' \<mapsto> JArray [], ''id'' \<mapsto> JString [0x31]] :: unit json) \<and>
   \<not> claimed_ApiHashtagJSON
     (JObject [''name'' \<mapsto> JString [0x61], ''url'' \<mapsto> JString [0x62],
               ''history'' \<mapsto> JArray [], ''id'' \<mapsto> JString [0x31]] :: unit json) \<and>
   ApiHashtagJSON
     (JObject [''name'' \<mapsto> JString [0x61], ''url'' \<mapsto> JString [0x62],
               ''history'' \<mapsto> JArray [JObject [''day'' \<mapsto> JString [0x30],
                  ''accounts'' \<mapsto> JString [0x78], ''uses'' \<mapsto> JString [0x31]]]] :: unit json) \<and>
   \<not> claimed_ApiHashtagJSON
     (JObject [''name'' \<mapsto> JString [0x61], ''url'' \<mapsto> JString [0x62],
               ''history'' \<mapsto> JArray [JObject [''day'' \<mapsto> JString [0x30],
                  ''accounts'' \<mapsto> JString [0x78], ''uses'' \<mapsto> JString [0x31]]]] :: unit json)"
  by (simp add: digits_def)

text \<open>
  C9, amended. A value has the hashtag type exactly when it is an object with a string
  under \<open>name\<close>, a string under \<open>url\<close>, under \<open>history\<close> an array of values of the
  history type, and under \<open>following\<close> nothing or a boolean. A value has the history
  type exactly when it is an object with strings under \<open>day\<close>, \<open>accounts\<close> and
  \<open>uses\<close>; a number for a count is not accepted, and nothing asks the strings to be
  numeric. Every value of the shape the claim describes has the type, and a value of
  the type keeps it whatever it carries under a name that is not declared.
\<close>

theorem ApiHashtagJSON_shape:
  "(ApiHashtagJSON x \<longleftrightarrow>
      (\<exists>ps n u hs. x = JObject ps \<and> ps ''name'' = Some (JString n) \<and>
         ps ''url'' = Some (JString u) \<and>
         ps ''history'' = Some (JArray hs) \<and> list_all ApiHistoryJSON hs \<and>
         (ps ''following'' = None \<or> (\<exists>b. ps ''following'' = Some (JBool b))))) \<and>
   (ApiHistoryJSON p \<longleftrightarrow>
      (\<exists>ps d a u. p = JObject ps \<and> ps ''day'' = Some (JString d) \<and>
         ps ''accounts'' = Some (JString a) \<and> ps ''uses'' = Some (JString u))) \<and>
   \<not> ApiHistoryJSON (JObject (qs(''accounts'' \<mapsto> JNumber m))) \<and>
   \<not> ApiHistoryJSON (JObject (qs(''uses'' \<mapsto> JNumber m))) \<and>
   (claimed_ApiHashtagJSON x \<longrightarrow> ApiHashtagJSON x) \<and>
   (ApiHashtagJSON (JObject ps) \<and> k \<notin> {''name'', ''url'', ''history'', ''following''} \<longrightarrow>
      ApiHashtagJSON (JObject (ps(k \<mapsto> v))))"
proof -
  have num: "\<not> ApiHistoryJSON (JObject (qs(''accounts'' \<mapsto> JNumber m)))"
    "\<not> ApiHistoryJSON (JObject (qs(''uses'' \<mapsto> JNumber m)))"
    by simp_all
  have incl: "claimed_ApiHashtagJSON x \<longrightarrow> ApiHashtagJSON x"
    by (simp add: claimed_ApiHashtagJSON_included)
  have extra: "ApiHashtagJSON (JObject ps) \<and> k \<notin> {''name'', ''url'', ''history'', ''following''} \<longrightarrow>
      ApiHashtagJSON (JObject (ps(k \<mapsto> v)))"
    using ApiHashtagJSON_extra_property[of ps k v] by blast
  from ApiHashtagJSON_iff[of x] ApiHistoryJSON_iff[of p] num incl extra
  show ?thesis by (intro conjI)
qed

text \<open>
  A hashtag of the claimed shape, with one history point and the flag set, and the
  same hashtag with an \<open>id\<close> added.
\<close>

theorem ApiHashtagJSON_shape_witness:
  "claimed_ApiHashtagJSON
     (JObject [''name'' \<mapsto> JString [0x61], ''url'' \<mapsto> JString [0x62],
               ''history'' \<mapsto> JArray [JObject [''day'' \<mapsto> JString [0x30],
                  ''accounts'' \<mapsto> JString [0x37], ''uses'' \<mapsto> JString [0x39]]],
               ''following'' \<mapsto> JBool True] :: unit json) \<and>
   ApiHashtagJSON
     (JObject [''name'' \<mapsto> JString [0x61], ''url'' \<mapsto> JString [0x62],
               ''history'' \<mapsto> JArray [JObject [''day'' \<mapsto> JString [0x30],
                  ''accounts'' \<mapsto> JString [0x37], ''uses'' \<mapsto> JString [0x39]]],
               ''following'' \<mapsto> JBool True] :: unit json) \<and>
   ''id'' \<notin> {''name'', ''url'', ''history'', ''following''} \<and>
   ApiHashtagJSON
     (JObject [''name'' \<mapsto> JString [0x61], ''url'' \<mapsto> JString [0x62],
               ''history'' \<mapsto> JArray [JObject [''day'' \<mapsto> JString [0x30],
                  ''accounts'' \<mapsto> JString [0x37], ''uses'' \<mapsto> JString [0x39]]],
               ''following'' \<mapsto> JBool True, ''id'' \<mapsto> JString [0x31]] :: unit json)"
proof -
  have c: "claimed_ApiHashtagJSON
     (JObject [''name'' \<mapsto> JString [0x61], ''url'' \<mapsto> JString [0x62],
               ''history'' \<mapsto> JArray [JObject [''day'' \<mapsto> JString [0x30],
                  ''accounts'' \<mapsto> JString [0x37], ''uses'' \<mapsto> JString [0x39]]],
               ''following'' \<mapsto> JBool True] :: unit json)"
    by (simp add: digits_def insert_commute)
  have k: "''id'' \<notin> {''name'', ''url'', ''history'', ''following''}"
    by simp
  note w = ApiHashtagJSON_shape[of
      "JObject [''name'' \<mapsto> JString [0x61], ''url'' \<mapsto> JString [0x62],
               ''history'' \<mapsto> JArray [JObject [''day'' \<mapsto> JString [0x30],
                  ''accounts'' \<mapsto> JString [0x37], ''uses'' \<mapsto> JString [0x39]]],
               ''following'' \<mapsto> JBool True] :: unit json"
      JNull Map.empty "()"
      "[''name'' \<mapsto> JString [0x61], ''url'' \<mapsto> JString [0x62],
               ''history'' \<mapsto> JArray [JObject [''day'' \<mapsto> JString [0x30],
                  ''accounts'' \<mapsto> JString [0x37], ''uses'' \<mapsto> JString [0x39]]],
               ''following'' \<mapsto> JBool True]"
      "''id''" "JString [0x31]"]
  note incl = w[THEN conjunct2, THEN conjunct2, THEN conjunct2, THEN conjunct2, THEN conjunct1]
  note extra = w[THEN conjunct2, THEN conjunct2, THEN conjunct2, THEN conjunct2, THEN conjunct2]
  have t: "ApiHashtagJSON
     (JObject [''name'' \<mapsto> JString [0x61], ''url'' \<mapsto> JString [0x62],
               ''history'' \<mapsto> JArray [JObject [''day'' \<mapsto> JString [0x30],
                  ''accounts'' \<mapsto> JString [0x37], ''uses'' \<mapsto> JString [0x39]]],
               ''following'' \<mapsto> JBool True] :: unit json)"
    by (rule incl[THEN mp, OF c])
  have e: "ApiHashtagJSON
     (JObject [''name'' \<mapsto> JString [0x61], ''url'' \<mapsto> JString [0x62],
               ''history'' \<mapsto> JArray [JObject [''day'' \<mapsto> JString [0x30],
                  ''accounts'' \<mapsto> JString [0x37], ''uses'' \<mapsto> JString [0x39]]],
               ''following'' \<mapsto> JBool True, ''id'' \<mapsto> JString [0x31]] :: unit json)"
    by (rule extra[THEN mp, OF conjI[OF t k]])
  from c t k e show ?thesis by (intro conjI)
qed

text \<open>
  C10. Whatever the query, when the ref holds a controller the first effect of the
  search handler is the abort of that controller, ahead of every state update, and the
  controller is aborted afterwards. So in a state the component reaches, a query whose
  trimmed form is empty leaves no request in flight.
\<close>

theorem handleSearch_aborts_first:
  "(searchRequestRef (st :: 'r state) = Some c \<longrightarrow>
      (\<exists>rest. trace (handleSearch v st) = trace st @ Abort c # rest) \<and>
      c \<in> aborted (handleSearch v st)) \<and>
   (trim v = [] \<longrightarrow> in_flight (handleSearch v (run es (init :: 'r state))) = [])"
proof -
  have first: "(\<exists>rest. trace (handleSearch v st) = trace st @ Abort c # rest) \<and>
      c \<in> aborted (handleSearch v st)" if "searchRequestRef st = Some c"
    using that
    by (cases "trim v = []")
       (simp_all add: handleSearch_empty handleSearch_nonempty abort_previous_def)
  have cancel: "in_flight (handleSearch v (run es init)) = []" if e: "trim v = []"
  proof -
    have "single_slot (run es (init :: 'r state))"
      by (rule single_slot_run) (rule single_slot_init)
    then show ?thesis
      by (auto simp: handleSearch_empty[OF e] in_flight_def single_slot_def list_all_iff
          filter_empty_conv split: option.splits)
  qed
  from first cancel show ?thesis by blast
qed

text \<open>The query \<open>a\<close> is pending when the input is emptied.\<close>

theorem handleSearch_aborts_first_witness:
  "searchRequestRef (run [Search [0x61]] (init :: unit state)) = Some 0 \<and>
   in_flight (run [Search [0x61]] (init :: unit state)) = [(0, [0x61])] \<and>
   trim [] = [] \<and>
   trace (handleSearch [] (run [Search [0x61]] (init :: unit state))) =
     [SetSearching True, NewAbortController 0, ApiRequest 0 [0x61], Abort 0,
      SetSearchAccountIds []] \<and>
   0 \<in> aborted (handleSearch [] (run [Search [0x61]] (init :: unit state))) \<and>
   in_flight (handleSearch [] (run [Search [0x61]] (init :: unit state))) = []"
  using handleSearch_aborts_first[of "run [Search [0x61]] (init :: unit state)" 0 "[]"
      "[Search [0x61]] :: unit event list"]
  by (simp add: eval_defs)

end
